theory Spec2Isabelle
  imports Main "HOL-Library.Word"
begin

unbundle bit_operations_syntax

section \<open>Register state (src/disassembler/regs.ts)\<close>

subsection \<open>The REGISTER enumeration\<close>

text \<open>
  \<^verbatim>\<open>enum REGISTER { A = 0, F, B, C, D, E, H, L, A2, F2, B2, C2, D2, E2, H2, L2,
  IXL, IXH, IYL, IYH, REGS_MAX }\<close> is a numeric enum: its members are the numbers
  0 to 20, used both as array indices and as slot contents.
\<close>

type_synonym REGISTER = nat

definition REGISTER_A :: REGISTER where "REGISTER_A = 0"
definition REGISTER_F :: REGISTER where "REGISTER_F = 1"
definition REGISTER_B :: REGISTER where "REGISTER_B = 2"
definition REGISTER_C :: REGISTER where "REGISTER_C = 3"
definition REGISTER_D :: REGISTER where "REGISTER_D = 4"
definition REGISTER_E :: REGISTER where "REGISTER_E = 5"
definition REGISTER_H :: REGISTER where "REGISTER_H = 6"
definition REGISTER_L :: REGISTER where "REGISTER_L = 7"
definition REGISTER_A2 :: REGISTER where "REGISTER_A2 = 8"
definition REGISTER_F2 :: REGISTER where "REGISTER_F2 = 9"
definition REGISTER_B2 :: REGISTER where "REGISTER_B2 = 10"
definition REGISTER_C2 :: REGISTER where "REGISTER_C2 = 11"
definition REGISTER_D2 :: REGISTER where "REGISTER_D2 = 12"
definition REGISTER_E2 :: REGISTER where "REGISTER_E2 = 13"
definition REGISTER_H2 :: REGISTER where "REGISTER_H2 = 14"
definition REGISTER_L2 :: REGISTER where "REGISTER_L2 = 15"
definition REGISTER_IXL :: REGISTER where "REGISTER_IXL = 16"
definition REGISTER_IXH :: REGISTER where "REGISTER_IXH = 17"
definition REGISTER_IYL :: REGISTER where "REGISTER_IYL = 18"
definition REGISTER_IYH :: REGISTER where "REGISTER_IYH = 19"
definition REGISTER_REGS_MAX :: REGISTER where "REGISTER_REGS_MAX = 20"

subsection \<open>The value of a Regs instance\<close>

text \<open>
  \<^verbatim>\<open>regs\<close> is a JavaScript \<^verbatim>\<open>Array\<close>: a map from indices to numbers, where an
  index that was never assigned reads as \<^verbatim>\<open>undefined\<close> (here \<open>None\<close>) and an
  assignment to any index succeeds. Slot contents are numbers: a register's own number
  (unused), another register's number (after an exchange) or \<open>-1\<close> (after \<^verbatim>\<open>use\<close>).
  \<^verbatim>\<open>usedAddresses\<close> and \<^verbatim>\<open>stack\<close> are arrays of numbers that are only appended to;
  \<^verbatim>\<open>inputRegs\<close> is a \<^verbatim>\<open>Set\<close>, kept as the list of its elements in insertion order.
\<close>

type_synonym slots = "nat \<rightharpoonup> int"

record Regs =
  regs :: slots
  usedAddresses :: "int list"
  inputRegs :: "REGISTER list"
  stack :: "int list"

text \<open>\<^verbatim>\<open>Set.prototype.add\<close>: an element already present is not added again.\<close>

definition Set_add :: "'a list \<Rightarrow> 'a \<Rightarrow> 'a list" where
  "Set_add xs x = (if x \<in> set xs then xs else xs @ [x])"

subsection \<open>Constructor\<close>

text \<open>
  \<^verbatim>\<open>for(let r=0; r<REGISTER.REGS_MAX; r++) this.regs[r] = r;\<close> on the array made by
  \<^verbatim>\<open>new Array<REGISTER>(REGISTER.REGS_MAX)\<close>, all of whose slots are empty. The
  assertion on the length of the static \<^verbatim>\<open>names\<close> table (20 names) always holds.
\<close>

function Regs_init_loop :: "nat \<Rightarrow> slots \<Rightarrow> slots" where
  "Regs_init_loop r a =
     (if r < REGISTER_REGS_MAX then Regs_init_loop (r + 1) (a(r \<mapsto> int r)) else a)"
  by pat_completeness auto
termination
  by (relation "measure (\<lambda>(r, a). REGISTER_REGS_MAX - r)") auto

declare Regs_init_loop.simps [simp del]

definition Regs_new :: Regs where
  "Regs_new = \<lparr>regs = Regs_init_loop 0 Map.empty, usedAddresses = [], inputRegs = [], stack = []\<rparr>"

subsection \<open>isUsed, use\<close>

text \<open>\<^verbatim>\<open>return (this.regs[r] != r);\<close>\<close>

definition isUsed :: "Regs \<Rightarrow> REGISTER \<Rightarrow> bool" where
  "isUsed s r = (regs s r \<noteq> Some (int r))"

text \<open>\<^verbatim>\<open>this.regs[r] = -1;\<close>\<close>

definition use :: "Regs \<Rightarrow> REGISTER \<Rightarrow> Regs" where
  "use s r = s\<lparr>regs := (regs s)(r := Some (- 1))\<rparr>"

subsection \<open>The two bank exchanges\<close>

text \<open>
  An assignment \<^verbatim>\<open>this.regs[i] = this.regs[j]\<close> copies whatever the read gives,
  \<^verbatim>\<open>undefined\<close> included.
\<close>

definition exxAF :: "Regs \<Rightarrow> Regs" where
  "exxAF s =
     (let a = regs s REGISTER_A;
          f = regs s REGISTER_F;
          rs1 = (regs s)(REGISTER_A := regs s REGISTER_A2);
          rs2 = rs1(REGISTER_F := rs1 REGISTER_F2);
          rs3 = rs2(REGISTER_A2 := a);
          rs4 = rs3(REGISTER_F2 := f)
      in s\<lparr>regs := rs4\<rparr>)"

text \<open>
  \<^verbatim>\<open>const diff = REGISTER.B2 - REGISTER.B;
  for(let r=REGISTER.B; r<=REGISTER.L; r++) {
    const tmp = this.regs[r]; this.regs[r] = this.regs[r+diff]; this.regs[r+diff] = tmp; }\<close>
\<close>

function exx_loop :: "nat \<Rightarrow> nat \<Rightarrow> slots \<Rightarrow> slots" where
  "exx_loop diff r a =
     (if r \<le> REGISTER_L
      then exx_loop diff (r + 1) (let tmp = a r; a1 = a(r := a (r + diff)) in a1(r + diff := tmp))
      else a)"
  by pat_completeness auto
termination
  by (relation "measure (\<lambda>(diff, r, a). Suc REGISTER_L - r)") auto

declare exx_loop.simps [simp del]

definition exx :: "Regs \<Rightarrow> Regs" where
  "exx s = (let diff = REGISTER_B2 - REGISTER_B in s\<lparr>regs := exx_loop diff REGISTER_B (regs s)\<rparr>)"

subsection \<open>usedRegs\<close>

text \<open>
  \<^verbatim>\<open>for(let r=0; r<REGISTER.REGS_MAX; r++) { if(this.regs[r] != r) usedRegs.add(r); }\<close>
\<close>

function usedRegs_loop :: "slots \<Rightarrow> nat \<Rightarrow> REGISTER list \<Rightarrow> REGISTER list" where
  "usedRegs_loop a r usedRegs =
     (if r < REGISTER_REGS_MAX
      then usedRegs_loop a (r + 1) (if a r \<noteq> Some (int r) then Set_add usedRegs r else usedRegs)
      else usedRegs)"
  by pat_completeness auto
termination
  by (relation "measure (\<lambda>(a, r, u). REGISTER_REGS_MAX - r)") auto

declare usedRegs_loop.simps [simp del]

definition usedRegs :: "Regs \<Rightarrow> REGISTER list" where
  "usedRegs s = usedRegs_loop (regs s) 0 []"

subsection \<open>merge\<close>

text \<open>
  \<^verbatim>\<open>for(let r=0; r<REGISTER.REGS_MAX; r++) {
    if(otherRegs.regs[r] != r) this.regs[r] = otherRegs.regs[r]; }\<close>
  Iteration \<open>r\<close> reads slot \<open>r\<close> of the other instance and writes slot \<open>r\<close> of this one
  only, so the slot it reads was not written by an earlier iteration even when both
  are the same object: reading the other instance's array as it was at the call is exact.
\<close>

function merge_loop :: "nat \<Rightarrow> slots \<Rightarrow> slots \<Rightarrow> slots" where
  "merge_loop r this other =
     (if r < REGISTER_REGS_MAX
      then merge_loop (r + 1) (if other r \<noteq> Some (int r) then this(r := other r) else this) other
      else this)"
  by pat_completeness auto
termination
  by (relation "measure (\<lambda>(r, this, other). REGISTER_REGS_MAX - r)") auto

declare merge_loop.simps [simp del]

definition merge :: "Regs \<Rightarrow> Regs \<Rightarrow> Regs" where
  "merge s otherRegs = s\<lparr>regs := merge_loop 0 (regs s) (regs otherRegs)\<rparr>"

subsection \<open>Instances as objects: the store, clone\<close>

text \<open>
  The methods above read and write the fields of one instance only, so they are
  given on the value of the instance. \<^verbatim>\<open>clone\<close> makes a second instance, and
  whether the two share an array is a question about references. A store holds the
  arrays and sets that instances refer to, by kind; a reference is an index into the
  store, and allocation appends. An instance is its four fields, each a reference
  (the fields are never reassigned).
\<close>

record store =
  slot_arrays :: "slots list"
  number_arrays :: "int list list"
  register_sets :: "REGISTER list list"

record Regs_object =
  regs_at :: nat
  usedAddresses_at :: nat
  inputRegs_at :: nat
  stack_at :: nat

definition allocated :: "store \<Rightarrow> Regs_object \<Rightarrow> bool" where
  "allocated st p =
     (regs_at p < length (slot_arrays st) \<and>
      usedAddresses_at p < length (number_arrays st) \<and>
      inputRegs_at p < length (register_sets st) \<and>
      stack_at p < length (number_arrays st))"

text \<open>The value of instance \<open>p\<close> in store \<open>st\<close>.\<close>

definition Regs_at :: "store \<Rightarrow> Regs_object \<Rightarrow> Regs" where
  "Regs_at st p =
     \<lparr>regs = slot_arrays st ! regs_at p,
      usedAddresses = number_arrays st ! usedAddresses_at p,
      inputRegs = register_sets st ! inputRegs_at p,
      stack = number_arrays st ! stack_at p\<rparr>"

text \<open>
  \<^verbatim>\<open>new Regs()\<close>: the field initialisers allocate \<^verbatim>\<open>new Array(REGS_MAX)\<close>,
  \<^verbatim>\<open>[]\<close>, \<^verbatim>\<open>new Set()\<close> and \<^verbatim>\<open>[]\<close>, then the constructor body fills the slots.
\<close>

definition Regs_constructor :: "store \<Rightarrow> Regs_object \<times> store" where
  "Regs_constructor st =
     (let this = \<lparr>regs_at = length (slot_arrays st),
                  usedAddresses_at = length (number_arrays st),
                  inputRegs_at = length (register_sets st),
                  stack_at = length (number_arrays st) + 1\<rparr>;
          st1 = \<lparr>slot_arrays = slot_arrays st @ [Map.empty],
                 number_arrays = number_arrays st @ [[], []],
                 register_sets = register_sets st @ [[]]\<rparr>;
          st2 = st1\<lparr>slot_arrays := (slot_arrays st1)
                   [regs_at this := Regs_init_loop 0 (slot_arrays st1 ! regs_at this)]\<rparr>
      in (this, st2))"

text \<open>
  \<^verbatim>\<open>for(let r=0; r<REGISTER.REGS_MAX; r++) nRegs.regs[r] = this.regs[r];\<close>
  Both arrays are read from the store as it is at that iteration.
\<close>

function clone_regs_loop :: "nat \<Rightarrow> nat \<Rightarrow> nat \<Rightarrow> store \<Rightarrow> store" where
  "clone_regs_loop r src dst st =
     (if r < REGISTER_REGS_MAX
      then clone_regs_loop (r + 1) src dst
             (st\<lparr>slot_arrays := (slot_arrays st)
                   [dst := (slot_arrays st ! dst)(r := (slot_arrays st ! src) r)]\<rparr>)
      else st)"
  by pat_completeness auto
termination
  by (relation "measure (\<lambda>(r, src, dst, st). REGISTER_REGS_MAX - r)") auto

declare clone_regs_loop.simps [simp del]

text \<open>
  \<^verbatim>\<open>for(const addr of this.usedAddresses) nRegs.usedAddresses.push(addr);\<close> and the two
  that follow, of the same shape. The array pushed to belongs to \<^verbatim>\<open>nRegs\<close>, constructed a few
  lines earlier, so the array iterated over does not grow during the loop: the loop
  runs over its elements as they are when it starts.
\<close>

definition push_at :: "store \<Rightarrow> nat \<Rightarrow> int \<Rightarrow> store" where
  "push_at st a v = st\<lparr>number_arrays := (number_arrays st)[a := number_arrays st ! a @ [v]]\<rparr>"

definition add_at :: "store \<Rightarrow> nat \<Rightarrow> REGISTER \<Rightarrow> store" where
  "add_at st a reg = st\<lparr>register_sets := (register_sets st)[a := Set_add (register_sets st ! a) reg]\<rparr>"

fun push_each :: "int list \<Rightarrow> nat \<Rightarrow> store \<Rightarrow> store" where
  "push_each [] dst st = st"
| "push_each (val # rest) dst st = push_each rest dst (push_at st dst val)"

fun add_each :: "REGISTER list \<Rightarrow> nat \<Rightarrow> store \<Rightarrow> store" where
  "add_each [] dst st = st"
| "add_each (reg # rest) dst st = add_each rest dst (add_at st dst reg)"

definition clone :: "store \<Rightarrow> Regs_object \<Rightarrow> Regs_object \<times> store" where
  "clone st this =
     (let (nRegs, st0) = Regs_constructor st;
          st1 = clone_regs_loop 0 (regs_at this) (regs_at nRegs) st0;
          st2 = push_each (number_arrays st1 ! usedAddresses_at this) (usedAddresses_at nRegs) st1;
          st3 = add_each (register_sets st2 ! inputRegs_at this) (inputRegs_at nRegs) st2;
          st4 = push_each (number_arrays st3 ! stack_at this) (stack_at nRegs) st3
      in (nRegs, st4))"

text \<open>
  A mutation of an instance's slots is an assignment \<^verbatim>\<open>p.regs[r] = v\<close>; every
  method that changes slots (\<^verbatim>\<open>use\<close>, \<^verbatim>\<open>exxAF\<close>, \<^verbatim>\<open>exx\<close>, \<^verbatim>\<open>merge\<close>) is a
  sequence of such assignments on its own instance.
\<close>

definition set_slot :: "store \<Rightarrow> Regs_object \<Rightarrow> nat \<Rightarrow> int option \<Rightarrow> store" where
  "set_slot st p r v =
     st\<lparr>slot_arrays := (slot_arrays st)[regs_at p := (slot_arrays st ! regs_at p)(r := v)]\<rparr>"

fun set_slots :: "store \<Rightarrow> Regs_object \<Rightarrow> (nat \<times> int option) list \<Rightarrow> store" where
  "set_slots st p [] = st"
| "set_slots st p ((r, v) # ws) = set_slots (set_slot st p r v) p ws"

subsection \<open>Sequences of operations on one instance\<close>

datatype operation = Use REGISTER | ExxAF | Exx | Merge Regs

fun apply_operation :: "Regs \<Rightarrow> operation \<Rightarrow> Regs" where
  "apply_operation s (Use r) = use s r"
| "apply_operation s ExxAF = exxAF s"
| "apply_operation s Exx = exx s"
| "apply_operation s (Merge otherRegs) = merge s otherRegs"

fun run :: "Regs \<Rightarrow> operation list \<Rightarrow> Regs" where
  "run s [] = s"
| "run s (x # xs) = run (apply_operation s x) xs"

text \<open>The slots an exchange assigns to.\<close>

fun exchanges :: "operation \<Rightarrow> REGISTER \<Rightarrow> bool" where
  "exchanges ExxAF r = (r = REGISTER_A \<or> r = REGISTER_F \<or> r = REGISTER_A2 \<or> r = REGISTER_F2)"
| "exchanges Exx r =
     ((REGISTER_B \<le> r \<and> r \<le> REGISTER_L) \<or> (REGISTER_B2 \<le> r \<and> r \<le> REGISTER_L2))"
| "exchanges (Use r') r = False"
| "exchanges (Merge otherRegs) r = False"

section \<open>Memory (src/memory.ts)\<close>

definition MAX_MEM_SIZE :: int where "MAX_MEM_SIZE = 0x10000"

text \<open>\<^verbatim>\<open>enum MemAttribute\<close>: bit values, combined with \<^verbatim>\<open>|\<close>.\<close>

type_synonym MemAttribute = int

definition MemAttribute_UNUSED :: MemAttribute where "MemAttribute_UNUSED = 0"
definition MemAttribute_ASSIGNED :: MemAttribute where "MemAttribute_ASSIGNED = 0x01"
definition MemAttribute_CODE :: MemAttribute where "MemAttribute_CODE = 0x02"
definition MemAttribute_CODE_FIRST :: MemAttribute where "MemAttribute_CODE_FIRST = 0x04"
definition MemAttribute_DATA :: MemAttribute where "MemAttribute_DATA = 0x08"

text \<open>
  \<^verbatim>\<open>memory\<close> is a \<^verbatim>\<open>Uint8Array\<close> of \<^verbatim>\<open>MAX_MEM_SIZE\<close> bytes: fixed length, every
  element an unsigned byte. \<^verbatim>\<open>memoryAttr\<close> is a plain JavaScript \<^verbatim>\<open>Array\<close>: a map
  from indices to numbers, where an index never assigned reads as \<^verbatim>\<open>undefined\<close>
  (\<open>None\<close>) and an assignment to any index, also one past the current length, succeeds
  and creates the entry. Addresses are JavaScript numbers holding integers.
\<close>

record Memory =
  memory :: "8 word list"
  memoryAttr :: "int \<rightharpoonup> MemAttribute"

text \<open>
  \<^verbatim>\<open>x & (MAX_MEM_SIZE-1)\<close>: JavaScript's \<^verbatim>\<open>&\<close> works on the two's complement
  bits of the integer (the low 32 of them, of which the mask keeps 16), as \<open>AND\<close>
  on \<open>int\<close> does.

  \<^verbatim>\<open>a[i] |= x\<close> reads \<^verbatim>\<open>a[i]\<close>, takes \<^verbatim>\<open>undefined\<close> as 0, and stores the bitwise or.
\<close>

definition or_assign :: "(int \<rightharpoonup> MemAttribute) \<Rightarrow> int \<Rightarrow> MemAttribute \<Rightarrow> (int \<rightharpoonup> MemAttribute)" where
  "or_assign a i x = a(i \<mapsto> (case a i of None \<Rightarrow> 0 | Some v \<Rightarrow> v) OR x)"

text \<open>
  Constructor: \<^verbatim>\<open>for(let i=0; i<MAX_MEM_SIZE; i++) { this.memory[i] = 0;
  this.memoryAttr[i] = MemAttribute.UNUSED; }\<close> on a zero-filled \<^verbatim>\<open>Uint8Array\<close> and
  an \<^verbatim>\<open>Array\<close> with no entry assigned.
\<close>

function Memory_init_loop :: "int \<Rightarrow> Memory \<Rightarrow> Memory" where
  "Memory_init_loop i m =
     (if i < MAX_MEM_SIZE
      then Memory_init_loop (i + 1)
             (m\<lparr>memory := (memory m)[nat i := 0],
                memoryAttr := (memoryAttr m)(i \<mapsto> MemAttribute_UNUSED)\<rparr>)
      else m)"
  by pat_completeness auto
termination
  by (relation "measure (\<lambda>(i, m). nat (MAX_MEM_SIZE - i))") auto

declare Memory_init_loop.simps [simp del]

definition Memory_new :: Memory where
  "Memory_new =
     Memory_init_loop 0 \<lparr>memory = replicate (nat MAX_MEM_SIZE) 0, memoryAttr = Map.empty\<rparr>"

text \<open>
  \<^verbatim>\<open>setMemory(origin, memory)\<close>:
  \<^verbatim>\<open>for(let i=0; i<size; i++) { const addr = (origin+i) & (MAX_MEM_SIZE-1);
  this.memory[addr] = memory[i]; this.memoryAttr[addr] |= MemAttribute.ASSIGNED; }\<close>
\<close>

function setMemory_loop :: "nat \<Rightarrow> int \<Rightarrow> 8 word list \<Rightarrow> Memory \<Rightarrow> Memory" where
  "setMemory_loop i origin bytes m =
     (if i < length bytes
      then (let addr = (origin + int i) AND (MAX_MEM_SIZE - 1)
            in setMemory_loop (i + 1) origin bytes
                 (m\<lparr>memory := (memory m)[nat addr := bytes ! i],
                    memoryAttr := or_assign (memoryAttr m) addr MemAttribute_ASSIGNED\<rparr>))
      else m)"
  by pat_completeness auto
termination
  by (relation "measure (\<lambda>(i, origin, bytes, m). length bytes - i)") auto

declare setMemory_loop.simps [simp del]

definition setMemory :: "Memory \<Rightarrow> int \<Rightarrow> 8 word list \<Rightarrow> Memory" where
  "setMemory m origin bytes = setMemory_loop 0 origin bytes m"

text \<open>\<^verbatim>\<open>return this.memory[address&(MAX_MEM_SIZE-1)];\<close>\<close>

definition getValueAt :: "Memory \<Rightarrow> int \<Rightarrow> int" where
  "getValueAt m address = uint (memory m ! nat (address AND (MAX_MEM_SIZE - 1)))"

text \<open>
  \<^verbatim>\<open>const word = this.memory[address&(MAX_MEM_SIZE-1)]
     + 256*this.memory[(address+1)&(MAX_MEM_SIZE-1)];\<close>
\<close>

definition getWordValueAt :: "Memory \<Rightarrow> int \<Rightarrow> int" where
  "getWordValueAt m address =
     uint (memory m ! nat (address AND (MAX_MEM_SIZE - 1)))
     + 256 * uint (memory m ! nat ((address + 1) AND (MAX_MEM_SIZE - 1)))"

subsection \<open>getOpcodeAt\<close>

text \<open>
  Modelled from the spec: \<^verbatim>\<open>LabelType\<close> is declared in \<^verbatim>\<open>label.ts\<close>, which is not
  among the sources. Its members are those that \<^verbatim>\<open>getOpcodeAt\<close> names in its
  \<^verbatim>\<open>switch\<close>; \<open>OTHER\<close> stands for any value of the enumeration that the
  \<^verbatim>\<open>switch\<close> does not name (the spec's operand kind not recognised by the rule set).
\<close>

datatype LabelType =
    NONE
  | CODE_LBL
  | CODE_SUB
  | DATA_LBL
  | NUMBER_WORD
  | CODE_RELATIVE_LBL
  | CODE_RELATIVE_LOOP
  | NUMBER_BYTE
  | PORT_LBL
  | OTHER nat

text \<open>
  Modelled from the spec: \<^verbatim>\<open>Opcode\<close> is declared in \<^verbatim>\<open>opcodes.ts\<close>, which is not
  among the sources. \<^verbatim>\<open>getOpcodeAt\<close> reads its field \<^verbatim>\<open>valueType\<close> and assigns its
  field \<^verbatim>\<open>value\<close>; whatever else a descriptor holds is the record's extension. The
  table lookup \<^verbatim>\<open>Opcode.fromValue\<close> is a parameter of \<open>getOpcodeAt\<close>.
\<close>

record Opcode =
  valueType :: LabelType
  "value" :: int

text \<open>\<^verbatim>\<open>assert(false)\<close> throws.\<close>

datatype error = AssertionError

text \<open>
  The \<^verbatim>\<open>switch\<close> of \<^verbatim>\<open>getOpcodeAt\<close>, case by case. In the byte case
  \<^verbatim>\<open>opcode.value = this.getValueAt(address+1); if(opcode.value >= 128) opcode.value -= 256;
  if(opcode.valueType == CODE_RELATIVE_LBL || opcode.valueType == CODE_RELATIVE_LOOP)
    opcode.value += address+2;\<close>
\<close>

definition byte_value :: "'a Opcode_scheme \<Rightarrow> Memory \<Rightarrow> int \<Rightarrow> 'a Opcode_scheme" where
  "byte_value opcode m address =
     (let o1 = opcode\<lparr>value := getValueAt m (address + 1)\<rparr>;
          o2 = (if value o1 \<ge> 128 then o1\<lparr>value := value o1 - 256\<rparr> else o1);
          o3 = (if valueType o2 = CODE_RELATIVE_LBL \<or> valueType o2 = CODE_RELATIVE_LOOP
                then o2\<lparr>value := value o2 + (address + 2)\<rparr> else o2)
      in o3)"

definition getOpcodeAt ::
  "(int \<Rightarrow> 'a Opcode_scheme) \<Rightarrow> Memory \<Rightarrow> int \<Rightarrow> error + 'a Opcode_scheme" where
  "getOpcodeAt fromValue m address =
     (let val = uint (memory m ! nat (address AND (MAX_MEM_SIZE - 1)));
          opcode = fromValue val
      in case valueType opcode of
           NONE \<Rightarrow> Inr opcode
         | CODE_LBL \<Rightarrow> Inr (opcode\<lparr>value := getWordValueAt m (address + 1)\<rparr>)
         | CODE_SUB \<Rightarrow> Inr (opcode\<lparr>value := getWordValueAt m (address + 1)\<rparr>)
         | DATA_LBL \<Rightarrow> Inr (opcode\<lparr>value := getWordValueAt m (address + 1)\<rparr>)
         | NUMBER_WORD \<Rightarrow> Inr (opcode\<lparr>value := getWordValueAt m (address + 1)\<rparr>)
         | CODE_RELATIVE_LBL \<Rightarrow> Inr (byte_value opcode m address)
         | CODE_RELATIVE_LOOP \<Rightarrow> Inr (byte_value opcode m address)
         | NUMBER_BYTE \<Rightarrow> Inr (byte_value opcode m address)
         | PORT_LBL \<Rightarrow> Inr (opcode\<lparr>value := getValueAt m (address + 1)\<rparr>)
         | OTHER k \<Rightarrow> Inl AssertionError)"

subsection \<open>Attributes\<close>

text \<open>\<^verbatim>\<open>const attr = this.memoryAttr[address++]; return attr;\<close>\<close>

definition getAttributeAt :: "Memory \<Rightarrow> int \<Rightarrow> MemAttribute option" where
  "getAttributeAt m address = memoryAttr m address"

text \<open>\<^verbatim>\<open>for(let i=0; i<length; i++) this.memoryAttr[address++] |= attr;\<close>\<close>

function addAttributeAt_loop ::
  "int \<Rightarrow> int \<Rightarrow> int \<Rightarrow> MemAttribute \<Rightarrow> (int \<rightharpoonup> MemAttribute) \<Rightarrow> (int \<rightharpoonup> MemAttribute)" where
  "addAttributeAt_loop i len address attr a =
     (if i < len
      then addAttributeAt_loop (i + 1) len (address + 1) attr (or_assign a address attr)
      else a)"
  by pat_completeness auto
termination
  by (relation "measure (\<lambda>(i, len, address, attr, a). nat (len - i))") auto

declare addAttributeAt_loop.simps [simp del]

definition addAttributeAt :: "Memory \<Rightarrow> int \<Rightarrow> int \<Rightarrow> MemAttribute \<Rightarrow> Memory" where
  "addAttributeAt m address len attr =
     m\<lparr>memoryAttr := addAttributeAt_loop 0 len address attr (memoryAttr m)\<rparr>"

subsection \<open>Sample inputs\<close>

text \<open>
  A few rows in the shape of an opcode table, to run \<open>getOpcodeAt\<close> on concrete
  memory contents: the operand kinds of \<^verbatim>\<open>JR e\<close>, \<^verbatim>\<open>DJNZ e\<close>, \<^verbatim>\<open>LD A,n\<close>,
  \<^verbatim>\<open>OUT (n),A\<close> and \<^verbatim>\<open>JP nn\<close>, and one row (byte \<open>0xED\<close>) with a kind that
  the \<^verbatim>\<open>switch\<close> does not name. This is not the table of \<^verbatim>\<open>opcodes.ts\<close>.
\<close>

definition sample_fromValue :: "int \<Rightarrow> Opcode" where
  "sample_fromValue val =
     \<lparr>valueType =
        (if val = 0x18 then CODE_RELATIVE_LBL
         else if val = 0x10 then CODE_RELATIVE_LOOP
         else if val = 0x3E then NUMBER_BYTE
         else if val = 0xD3 then PORT_LBL
         else if val = 0xC3 then CODE_LBL
         else if val = 0xED then OTHER 0
         else NONE),
      value = 0\<rparr>"

definition sample_memory :: Memory where
  "sample_memory =
     setMemory (setMemory Memory_new 0x1000 [0x18, 0xFE])
       0x8000 [0x3E, 0x80, 0x3E, 0x7F, 0x3E, 0x00, 0xD3, 0x80, 0xED]"

text \<open>
  A store for running \<open>clone\<close>: one instance made by the constructor in an empty
  store, then \<^verbatim>\<open>s.regs[REGISTER.B] = -1; s.usedAddresses.push(0x8000);
  s.stack.push(0x1234); s.inputRegs.add(REGISTER.B)\<close>, and its clone.
\<close>

definition empty_store :: store where
  "empty_store = \<lparr>slot_arrays = [], number_arrays = [], register_sets = []\<rparr>"

definition sample_instance :: Regs_object where
  "sample_instance = fst (Regs_constructor empty_store)"

definition sample_store :: store where
  "sample_store =
     add_at
       (push_at
          (push_at
             (set_slot (snd (Regs_constructor empty_store)) sample_instance REGISTER_B (Some (- 1)))
             (usedAddresses_at sample_instance) 0x8000)
          (stack_at sample_instance) 0x1234)
       (inputRegs_at sample_instance) REGISTER_B"

definition sample_clone :: "Regs_object \<times> store" where
  "sample_clone = clone sample_store sample_instance"

section \<open>Properties of the register state\<close>

subsection \<open>What each loop computes\<close>

lemmas REGISTER_defs =
  REGISTER_A_def REGISTER_F_def REGISTER_B_def REGISTER_C_def REGISTER_D_def
  REGISTER_E_def REGISTER_H_def REGISTER_L_def REGISTER_A2_def REGISTER_F2_def
  REGISTER_B2_def REGISTER_C2_def REGISTER_D2_def REGISTER_E2_def REGISTER_H2_def
  REGISTER_L2_def REGISTER_IXL_def REGISTER_IXH_def REGISTER_IYL_def REGISTER_IYH_def
  REGISTER_REGS_MAX_def

lemma Regs_init_loop_apply:
  "Regs_init_loop r a i = (if r \<le> i \<and> i < REGISTER_REGS_MAX then Some (int i) else a i)"
proof (induction r a rule: Regs_init_loop.induct)
  case (1 r a)
  show ?case
  proof (cases "r < REGISTER_REGS_MAX")
    case True
    have "Regs_init_loop r a i = Regs_init_loop (r + 1) (a(r \<mapsto> int r)) i"
      using True by (subst Regs_init_loop.simps) simp
    also have "\<dots> = (if r + 1 \<le> i \<and> i < REGISTER_REGS_MAX then Some (int i)
                      else (a(r \<mapsto> int r)) i)"
      by (rule 1 [OF True])
    also have "\<dots> = (if r \<le> i \<and> i < REGISTER_REGS_MAX then Some (int i) else a i)"
      using True by auto
    finally show ?thesis .
  next
    case False
    then show ?thesis by (subst Regs_init_loop.simps) auto
  qed
qed

lemma merge_loop_apply:
  "merge_loop r this other i =
     (if r \<le> i \<and> i < REGISTER_REGS_MAX \<and> other i \<noteq> Some (int i) then other i else this i)"
proof (induction r this other rule: merge_loop.induct)
  case (1 r this other)
  show ?case
  proof (cases "r < REGISTER_REGS_MAX")
    case True
    define this' where "this' = (if other r \<noteq> Some (int r) then this(r := other r) else this)"
    have "merge_loop r this other i = merge_loop (r + 1) this' other i"
      using True by (subst merge_loop.simps) (simp add: this'_def)
    also have "\<dots> = (if r + 1 \<le> i \<and> i < REGISTER_REGS_MAX \<and> other i \<noteq> Some (int i)
                      then other i else this' i)"
      unfolding this'_def by (rule 1 [OF True])
    also have "\<dots> = (if r \<le> i \<and> i < REGISTER_REGS_MAX \<and> other i \<noteq> Some (int i)
                      then other i else this i)"
      using True by (auto simp: this'_def)
    finally show ?thesis .
  next
    case False
    then show ?thesis by (subst merge_loop.simps) auto
  qed
qed

lemma exx_loop_apply:
  "exx_loop 8 r a i =
     (if r \<le> i \<and> i \<le> REGISTER_L then a (i + 8)
      else if r + 8 \<le> i \<and> i \<le> REGISTER_L + 8 then a (i - 8)
      else a i)"
proof (induction "8::nat" r a rule: exx_loop.induct)
  case (1 r a)
  show ?case
  proof (cases "r \<le> REGISTER_L")
    case True
    define a' where "a' = (a(r := a (r + 8)))(r + 8 := a r)"
    have "exx_loop 8 r a i = exx_loop 8 (r + 1) a' i"
      using True by (subst exx_loop.simps) (simp add: a'_def Let_def)
    also have "\<dots> = (if r + 1 \<le> i \<and> i \<le> REGISTER_L then a' (i + 8)
      else if r + 1 + 8 \<le> i \<and> i \<le> REGISTER_L + 8 then a' (i - 8)
      else a' i)"
      using 1 [OF True] by (simp add: a'_def Let_def)
    also have "\<dots> = (if r \<le> i \<and> i \<le> REGISTER_L then a (i + 8)
      else if r + 8 \<le> i \<and> i \<le> REGISTER_L + 8 then a (i - 8)
      else a i)"
      using True by (auto simp: a'_def REGISTER_L_def)
    finally show ?thesis .
  next
    case False
    then show ?thesis by (subst exx_loop.simps) auto
  qed
qed

lemma set_usedRegs_loop:
  "set (usedRegs_loop a r u) =
     set u \<union> {i. r \<le> i \<and> i < REGISTER_REGS_MAX \<and> a i \<noteq> Some (int i)}"
proof (induction a r u rule: usedRegs_loop.induct)
  case (1 a r u)
  show ?case
  proof (cases "r < REGISTER_REGS_MAX")
    case True
    define u' where "u' = (if a r \<noteq> Some (int r) then Set_add u r else u)"
    have u': "set u' = set u \<union> (if a r \<noteq> Some (int r) then {r} else {})"
      by (auto simp: u'_def Set_add_def)
    have range: "{i. r \<le> i \<and> i < REGISTER_REGS_MAX \<and> a i \<noteq> Some (int i)} =
        (if a r \<noteq> Some (int r) then {r} else {}) \<union>
        {i. r + 1 \<le> i \<and> i < REGISTER_REGS_MAX \<and> a i \<noteq> Some (int i)}"
      using True by (auto simp: Suc_le_eq le_less)
    have "usedRegs_loop a r u = usedRegs_loop a (r + 1) u'"
      using True by (subst usedRegs_loop.simps) (simp add: u'_def)
    also have "set \<dots> = set u' \<union> {i. r + 1 \<le> i \<and> i < REGISTER_REGS_MAX \<and> a i \<noteq> Some (int i)}"
      unfolding u'_def by (rule 1 [OF True])
    finally show ?thesis unfolding u' range by blast
  next
    case False
    then show ?thesis by (subst usedRegs_loop.simps) auto
  qed
qed

lemma usedRegs_loop_cong:
  "(\<And>i. r \<le> i \<Longrightarrow> i < REGISTER_REGS_MAX \<Longrightarrow> (a i = Some (int i)) = (b i = Some (int i)))
   \<Longrightarrow> usedRegs_loop a r u = usedRegs_loop b r u"
proof (induction a r u rule: usedRegs_loop.induct)
  case (1 a r u)
  show ?case
  proof (cases "r < REGISTER_REGS_MAX")
    case True
    define u' where "u' = (if a r \<noteq> Some (int r) then Set_add u r else u)"
    have here: "(a r = Some (int r)) = (b r = Some (int r))"
      using 1(2) [of r] True by simp
    have later: "\<And>i. r + 1 \<le> i \<Longrightarrow> i < REGISTER_REGS_MAX
                  \<Longrightarrow> (a i = Some (int i)) = (b i = Some (int i))"
      using 1(2) by simp
    have "usedRegs_loop a r u = usedRegs_loop a (r + 1) u'"
      using True by (subst usedRegs_loop.simps) (simp add: u'_def)
    also have "\<dots> = usedRegs_loop b (r + 1) u'"
      unfolding u'_def using later by (rule 1(1) [OF True])
    also have "\<dots> = usedRegs_loop b r u"
      using True here by (subst (2) usedRegs_loop.simps) (simp add: u'_def)
    finally show ?thesis .
  next
    case False
    then show ?thesis by (subst usedRegs_loop.simps, subst (2) usedRegs_loop.simps) auto
  qed
qed

subsection \<open>Slot contents after each operation\<close>

lemma regs_Regs_new:
  "regs Regs_new r = (if r < REGISTER_REGS_MAX then Some (int r) else None)"
  by (simp add: Regs_new_def Regs_init_loop_apply)

lemma regs_use: "regs (use s r) i = (if i = r then Some (- 1) else regs s i)"
  by (simp add: use_def)

lemma regs_exxAF:
  "regs (exxAF s) i =
     (if i = REGISTER_A then regs s REGISTER_A2
      else if i = REGISTER_F then regs s REGISTER_F2
      else if i = REGISTER_A2 then regs s REGISTER_A
      else if i = REGISTER_F2 then regs s REGISTER_F
      else regs s i)"
  by (simp add: exxAF_def Let_def REGISTER_defs)

lemma regs_exx:
  "regs (exx s) i =
     (if REGISTER_B \<le> i \<and> i \<le> REGISTER_L then regs s (i + 8)
      else if REGISTER_B2 \<le> i \<and> i \<le> REGISTER_L2 then regs s (i - 8)
      else regs s i)"
  by (simp add: exx_def Let_def exx_loop_apply REGISTER_B_def REGISTER_B2_def
      REGISTER_L_def REGISTER_L2_def)

lemma regs_merge:
  "regs (merge s t) i =
     (if i < REGISTER_REGS_MAX \<and> regs t i \<noteq> Some (int i) then regs t i else regs s i)"
  by (simp add: merge_def merge_loop_apply)

lemma set_usedRegs:
  "set (usedRegs s) = {r. r < REGISTER_REGS_MAX \<and> isUsed s r}"
  by (simp add: usedRegs_def set_usedRegs_loop isUsed_def)

lemma isUsed_merge:
  "r < REGISTER_REGS_MAX \<Longrightarrow> isUsed (merge s t) r = (isUsed s r \<or> isUsed t r)"
  by (auto simp: isUsed_def regs_merge)

subsection \<open>The claims on one instance\<close>

text \<open>
  C10: on a freshly constructed state, one \<^verbatim>\<open>exxAF\<close> stores in each of A, F, A', F'
  the number of its partner, so \<^verbatim>\<open>isUsed\<close> is true for all four, \<^verbatim>\<open>usedRegs\<close> lists
  exactly these four, and \<^verbatim>\<open>inputRegs\<close> is still empty.
\<close>

theorem exxAF_on_new:
  "isUsed (exxAF Regs_new) REGISTER_A \<and> isUsed (exxAF Regs_new) REGISTER_F \<and>
   isUsed (exxAF Regs_new) REGISTER_A2 \<and> isUsed (exxAF Regs_new) REGISTER_F2 \<and>
   usedRegs (exxAF Regs_new) = [REGISTER_A, REGISTER_F, REGISTER_A2, REGISTER_F2] \<and>
   regs (exxAF Regs_new) REGISTER_A = Some (int REGISTER_A2) \<and>
   regs (exxAF Regs_new) REGISTER_F = Some (int REGISTER_F2) \<and>
   regs (exxAF Regs_new) REGISTER_A2 = Some (int REGISTER_A) \<and>
   regs (exxAF Regs_new) REGISTER_F2 = Some (int REGISTER_F) \<and>
   usedRegs Regs_new = [] \<and> inputRegs Regs_new = [] \<and> inputRegs (exxAF Regs_new) = []"
  by code_simp

text \<open>
  C8: \<^verbatim>\<open>a.merge(b)\<close> leaves \<^verbatim>\<open>inputRegs\<close>, \<^verbatim>\<open>usedAddresses\<close> and \<^verbatim>\<open>stack\<close> of
  \<open>a\<close> as they were; only the slots may change.
\<close>

theorem merge_frame:
  "inputRegs (merge a b) = inputRegs a \<and> usedAddresses (merge a b) = usedAddresses a \<and>
   stack (merge a b) = stack a"
  by (simp add: merge_def)

text \<open>
  C3: on the result of \<^verbatim>\<open>usedRegs\<close>, \<^verbatim>\<open>merge\<close> is commutative, the result holds
  exactly the registers used in either state, and merging a state with itself
  changes nothing.
\<close>

theorem merge_usedRegs:
  "usedRegs (merge a b) = usedRegs (merge b a) \<and>
   set (usedRegs (merge a b)) = set (usedRegs a) \<union> set (usedRegs b) \<and>
   merge a a = a"
proof (intro conjI)
  show "usedRegs (merge a b) = usedRegs (merge b a)"
    unfolding usedRegs_def
    by (rule usedRegs_loop_cong) (auto simp: regs_merge)
  show "set (usedRegs (merge a b)) = set (usedRegs a) \<union> set (usedRegs b)"
    by (auto simp: set_usedRegs isUsed_merge)
  have "regs (merge a a) = regs a"
    by (rule ext) (simp add: regs_merge)
  then show "merge a a = a"
    by (simp add: merge_def)
qed

text \<open>
  C1, as stated, fails: an exchange can return a used slot to its own number. Two
  \<^verbatim>\<open>exxAF\<close> in a row on a fresh state leave A unused again, and a slot marked by
  \<^verbatim>\<open>use\<close> between two \<^verbatim>\<open>exx\<close> is unused after the second.
\<close>

theorem used_reverts_counterexample:
  "isUsed (run Regs_new [ExxAF]) REGISTER_A \<and>
   \<not> isUsed (run Regs_new [ExxAF, ExxAF]) REGISTER_A \<and>
   isUsed (run Regs_new [Exx, Use REGISTER_B]) REGISTER_B \<and>
   \<not> isUsed (run Regs_new [Exx, Use REGISTER_B, Exx]) REGISTER_B"
  by code_simp

lemma isUsed_apply_operation:
  "isUsed s r \<Longrightarrow> \<not> exchanges x r \<Longrightarrow> isUsed (apply_operation s x) r"
proof (cases x)
  case (Use r')
  assume "isUsed s r"
  then show ?thesis using Use by (simp add: isUsed_def regs_use)
next
  case ExxAF
  assume "isUsed s r" "\<not> exchanges x r"
  then show ?thesis using ExxAF by (simp add: isUsed_def regs_exxAF)
next
  case Exx
  assume "isUsed s r" "\<not> exchanges x r"
  then show ?thesis using Exx by (auto simp: isUsed_def regs_exx)
next
  case (Merge t)
  assume "isUsed s r"
  then show ?thesis using Merge by (auto simp: isUsed_def regs_merge)
qed

text \<open>
  C1, amended: along any sequence of \<^verbatim>\<open>use\<close>, \<^verbatim>\<open>merge\<close> and exchanges that do not
  assign to slot \<open>r\<close>, a slot \<open>r\<close> that is used stays used.
\<close>

theorem used_stays_used:
  "isUsed s r \<Longrightarrow> \<forall>x \<in> set xs. \<not> exchanges x r \<Longrightarrow> isUsed (run s xs) r"
proof (induction xs arbitrary: s)
  case Nil
  then show ?case by simp
next
  case (Cons x xs)
  then show ?case by (simp add: isUsed_apply_operation)
qed

theorem used_stays_used_witness:
  "isUsed (run Regs_new [Use REGISTER_B]) REGISTER_B \<and>
   \<not> exchanges ExxAF REGISTER_B \<and>
   \<not> exchanges (Merge Regs_new) REGISTER_B \<and>
   \<not> exchanges (Use REGISTER_C) REGISTER_B \<and>
   isUsed (run (run Regs_new [Use REGISTER_B]) [ExxAF, Merge Regs_new, Use REGISTER_C]) REGISTER_B"
proof -
  have h1: "isUsed (run Regs_new [Use REGISTER_B]) REGISTER_B"
    by code_simp
  have h2: "\<forall>x \<in> set [ExxAF, Merge Regs_new, Use REGISTER_C]. \<not> exchanges x REGISTER_B"
    by (simp add: REGISTER_defs)
  show ?thesis using h1 h2 used_stays_used [OF h1 h2] by simp
qed

subsection \<open>clone\<close>

lemma Regs_constructor_eq:
  "Regs_constructor st =
     (\<lparr>regs_at = length (slot_arrays st), usedAddresses_at = length (number_arrays st),
       inputRegs_at = length (register_sets st), stack_at = length (number_arrays st) + 1\<rparr>,
      \<lparr>slot_arrays = slot_arrays st @ [Regs_init_loop 0 Map.empty],
       number_arrays = number_arrays st @ [[], []],
       register_sets = register_sets st @ [[]]\<rparr>)"
  by (simp add: Regs_constructor_def Let_def)

lemma clone_regs_loop_eq:
  "src \<noteq> dst \<Longrightarrow> dst < length (slot_arrays st) \<Longrightarrow>
   clone_regs_loop r src dst st =
     st\<lparr>slot_arrays := (slot_arrays st)
          [dst := (\<lambda>i. if r \<le> i \<and> i < REGISTER_REGS_MAX then (slot_arrays st ! src) i
                        else (slot_arrays st ! dst) i)]\<rparr>"
proof (induction r src dst st rule: clone_regs_loop.induct)
  case (1 r src dst st)
  show ?case
  proof (cases "r < REGISTER_REGS_MAX")
    case True
    define st1 where "st1 = st\<lparr>slot_arrays := (slot_arrays st)
                   [dst := (slot_arrays st ! dst)(r := (slot_arrays st ! src) r)]\<rparr>"
    have len: "dst < length (slot_arrays st1)" using 1(3) by (simp add: st1_def)
    have src1: "slot_arrays st1 ! src = slot_arrays st ! src"
      using 1(2) by (simp add: st1_def)
    have dst1: "slot_arrays st1 ! dst = (slot_arrays st ! dst)(r := (slot_arrays st ! src) r)"
      using 1(3) by (simp add: st1_def)
    have "clone_regs_loop r src dst st = clone_regs_loop (r + 1) src dst st1"
      using True by (subst clone_regs_loop.simps) (simp add: st1_def)
    also have "\<dots> = st1\<lparr>slot_arrays := (slot_arrays st1)
          [dst := (\<lambda>i. if r + 1 \<le> i \<and> i < REGISTER_REGS_MAX then (slot_arrays st1 ! src) i
                        else (slot_arrays st1 ! dst) i)]\<rparr>"
      unfolding st1_def using 1(2) len [unfolded st1_def] by (rule 1(1) [OF True])
    also have "\<dots> = st\<lparr>slot_arrays := (slot_arrays st)
          [dst := (\<lambda>i. if r \<le> i \<and> i < REGISTER_REGS_MAX then (slot_arrays st ! src) i
                        else (slot_arrays st ! dst) i)]\<rparr>"
    proof -
      have "(\<lambda>i. if r + 1 \<le> i \<and> i < REGISTER_REGS_MAX then (slot_arrays st1 ! src) i
                        else (slot_arrays st1 ! dst) i)
          = (\<lambda>i. if r \<le> i \<and> i < REGISTER_REGS_MAX then (slot_arrays st ! src) i
                        else (slot_arrays st ! dst) i)"
        using True by (auto simp: src1 dst1 fun_eq_iff)
      then show ?thesis by (simp add: st1_def)
    qed
    finally show ?thesis .
  next
    case False
    have "(\<lambda>i. if r \<le> i \<and> i < REGISTER_REGS_MAX then (slot_arrays st ! src) i
                        else (slot_arrays st ! dst) i) = slot_arrays st ! dst"
      using False by (auto simp: fun_eq_iff)
    then show ?thesis using False by (subst clone_regs_loop.simps) simp
  qed
qed

lemma push_each_eq:
  "dst < length (number_arrays st) \<Longrightarrow>
   push_each xs dst st =
     st\<lparr>number_arrays := (number_arrays st)[dst := number_arrays st ! dst @ xs]\<rparr>"
proof (induction xs arbitrary: st)
  case Nil
  then show ?case by simp
next
  case (Cons x xs)
  have "dst < length (number_arrays (push_at st dst x))"
    using Cons.prems by (simp add: push_at_def)
  then show ?case using Cons.prems by (simp add: Cons.IH push_at_def)
qed

lemma add_each_eq:
  "dst < length (register_sets st) \<Longrightarrow>
   add_each xs dst st =
     st\<lparr>register_sets := (register_sets st)[dst := fold (\<lambda>reg acc. Set_add acc reg) xs (register_sets st ! dst)]\<rparr>"
proof (induction xs arbitrary: st)
  case Nil
  then show ?case by simp
next
  case (Cons x xs)
  have "dst < length (register_sets (add_at st dst x))"
    using Cons.prems by (simp add: add_at_def)
  then show ?case using Cons.prems by (simp add: Cons.IH add_at_def)
qed

lemma set_fold_Set_add: "set (fold (\<lambda>reg acc. Set_add acc reg) xs acc) = set acc \<union> set xs"
  by (induction xs arbitrary: acc) (auto simp: Set_add_def)

lemma fold_Set_add_distinct:
  "distinct (acc @ xs) \<Longrightarrow> fold (\<lambda>reg acc. Set_add acc reg) xs acc = acc @ xs"
  by (induction xs arbitrary: acc) (auto simp: Set_add_def)

lemma clone_eq:
  assumes "allocated st p"
  shows "clone st p =
     (\<lparr>regs_at = length (slot_arrays st), usedAddresses_at = length (number_arrays st),
       inputRegs_at = length (register_sets st), stack_at = length (number_arrays st) + 1\<rparr>,
      \<lparr>slot_arrays = slot_arrays st @
         [\<lambda>i. if i < REGISTER_REGS_MAX then (slot_arrays st ! regs_at p) i else None],
       number_arrays = number_arrays st @
         [number_arrays st ! usedAddresses_at p, number_arrays st ! stack_at p],
       register_sets = register_sets st @ [fold (\<lambda>reg acc. Set_add acc reg) (register_sets st ! inputRegs_at p) []]\<rparr>)"
proof -
  have a: "regs_at p < length (slot_arrays st)" "usedAddresses_at p < length (number_arrays st)"
      "inputRegs_at p < length (register_sets st)" "stack_at p < length (number_arrays st)"
    using assms by (simp_all add: allocated_def)
  define q where "q = \<lparr>regs_at = length (slot_arrays st),
      usedAddresses_at = length (number_arrays st),
      inputRegs_at = length (register_sets st), stack_at = length (number_arrays st) + 1\<rparr>"
  define copy where
    "copy = (\<lambda>i. if i < REGISTER_REGS_MAX then (slot_arrays st ! regs_at p) i else None)"
  define st0 where "st0 = \<lparr>slot_arrays = slot_arrays st @ [Regs_init_loop 0 Map.empty],
       number_arrays = number_arrays st @ [[], []],
       register_sets = register_sets st @ [[]]\<rparr>"
  define st1 where "st1 = st0\<lparr>slot_arrays := slot_arrays st @ [copy]\<rparr>"
  define st2 where "st2 = st1\<lparr>number_arrays :=
      number_arrays st @ [number_arrays st ! usedAddresses_at p, []]\<rparr>"
  define st3 where "st3 = st2\<lparr>register_sets :=
      register_sets st @ [fold (\<lambda>reg acc. Set_add acc reg) (register_sets st ! inputRegs_at p) []]\<rparr>"
  define st4 where "st4 = st3\<lparr>number_arrays :=
      number_arrays st @ [number_arrays st ! usedAddresses_at p, number_arrays st ! stack_at p]\<rparr>"
  have c: "Regs_constructor st = (q, st0)"
    by (simp add: Regs_constructor_eq q_def st0_def)
  have "(\<lambda>i. if 0 \<le> i \<and> i < REGISTER_REGS_MAX then (slot_arrays st0 ! regs_at p) i
              else (slot_arrays st0 ! regs_at q) i) = copy"
    using a by (auto simp: fun_eq_iff copy_def st0_def q_def nth_append Regs_init_loop_apply)
  moreover have "regs_at p \<noteq> regs_at q" "regs_at q < length (slot_arrays st0)"
    using a by (simp_all add: q_def st0_def)
  ultimately have l1: "clone_regs_loop 0 (regs_at p) (regs_at q) st0 = st1"
    by (simp add: clone_regs_loop_eq st1_def) (simp add: st0_def q_def)
  have "usedAddresses_at q < length (number_arrays st1)"
    by (simp add: q_def st1_def st0_def)
  then have l2: "push_each (number_arrays st1 ! usedAddresses_at p) (usedAddresses_at q) st1 = st2"
    using a by (simp add: push_each_eq) (simp add: st2_def st1_def st0_def q_def nth_append)
  have "inputRegs_at q < length (register_sets st2)"
    by (simp add: q_def st2_def st1_def st0_def)
  then have l3: "add_each (register_sets st2 ! inputRegs_at p) (inputRegs_at q) st2 = st3"
    using a by (simp add: add_each_eq) (simp add: st3_def st2_def st1_def st0_def q_def nth_append)
  have "stack_at q < length (number_arrays st3)"
    by (simp add: q_def st3_def st2_def st1_def st0_def)
  then have l4: "push_each (number_arrays st3 ! stack_at p) (stack_at q) st3 = st4"
    using a
    by (simp add: push_each_eq)
       (simp add: st4_def st3_def st2_def st1_def st0_def q_def nth_append list_update_append)
  have "clone st p = (q, st4)"
    by (simp add: clone_def c l1 l2 l3 l4)
  then show ?thesis
    by (simp add: q_def st4_def st3_def st2_def st1_def st0_def copy_def)
qed

lemma set_slots_frame:
  "number_arrays (set_slots st p ws) = number_arrays st \<and>
   register_sets (set_slots st p ws) = register_sets st \<and>
   length (slot_arrays (set_slots st p ws)) = length (slot_arrays st) \<and>
   (\<forall>j. j \<noteq> regs_at p \<longrightarrow> slot_arrays (set_slots st p ws) ! j = slot_arrays st ! j)"
proof (induction ws arbitrary: st)
  case Nil
  then show ?case by simp
next
  case (Cons w ws)
  obtain r v where w: "w = (r, v)" by (cases w)
  show ?case using Cons.IH [of "set_slot st p r v"] by (simp add: w set_slot_def)
qed

lemma Regs_at_set_slots_other:
  "regs_at p \<noteq> regs_at q \<Longrightarrow> Regs_at (set_slots st q ws) p = Regs_at st p"
  using set_slots_frame [of st q ws] by (simp add: Regs_at_def)


lemma sample_instance_eq:
  "sample_instance = \<lparr>regs_at = 0, usedAddresses_at = 0, inputRegs_at = 0, stack_at = 1\<rparr>"
  by (simp add: sample_instance_def Regs_constructor_eq empty_store_def)

lemma sample_store_eq:
  "sample_store =
     \<lparr>slot_arrays = [(Regs_init_loop 0 Map.empty)(REGISTER_B := Some (- 1))],
      number_arrays = [[0x8000], [0x1234]],
      register_sets = [[REGISTER_B]]\<rparr>"
  by (simp add: sample_store_def sample_instance_eq Regs_constructor_eq empty_store_def
      set_slot_def push_at_def add_at_def Set_add_def)

lemma sample_clone_eq:
  "sample_clone =
     (\<lparr>regs_at = 1, usedAddresses_at = 2, inputRegs_at = 1, stack_at = 3\<rparr>,
      \<lparr>slot_arrays =
         [(Regs_init_loop 0 Map.empty)(REGISTER_B := Some (- 1)),
          \<lambda>i. if i < REGISTER_REGS_MAX
               then ((Regs_init_loop 0 Map.empty)(REGISTER_B := Some (- 1))) i else None],
       number_arrays = [[0x8000], [0x1234], [0x8000], [0x1234]],
       register_sets = [[REGISTER_B], [REGISTER_B]]\<rparr>)"
proof -
  have "allocated sample_store sample_instance"
    by (simp add: allocated_def sample_store_eq sample_instance_eq)
  then show ?thesis
    unfolding sample_clone_def
    by (simp add: clone_eq) (simp add: sample_store_eq sample_instance_eq Set_add_def cong: if_cong)
qed

lemma sample_clone_mutated:
  "usedRegs (Regs_at (set_slots (snd sample_clone) (fst sample_clone)
                        [(REGISTER_C, Some (- 1))]) (fst sample_clone))
   = [REGISTER_B, REGISTER_C]"
proof -
  have "usedRegs (Regs_at (set_slots (snd sample_clone) (fst sample_clone)
                        [(REGISTER_C, Some (- 1))]) (fst sample_clone))
      = usedRegs (use (use Regs_new REGISTER_B) REGISTER_C)"
    unfolding usedRegs_def
    by (rule usedRegs_loop_cong)
       (simp add: sample_clone_eq set_slot_def Regs_at_def use_def Regs_new_def)
  also have "\<dots> = [REGISTER_B, REGISTER_C]"
    by code_simp
  finally show ?thesis .
qed

text \<open>
  C9: \<^verbatim>\<open>s.clone()\<close> returns a new instance, none of whose arrays was allocated
  before the call. Its slots (the \<^verbatim>\<open>REGS_MAX\<close> register slots), \<^verbatim>\<open>usedRegs\<close>,
  \<^verbatim>\<open>usedAddresses\<close>, \<^verbatim>\<open>inputRegs\<close> (as a set) and \<^verbatim>\<open>stack\<close> equal those of
  \<open>s\<close>, and the whole value equals that of \<open>s\<close> when \<open>s\<close> has the shape every
  instance has (no slot beyond \<^verbatim>\<open>REGS_MAX\<close>, no repeated element in the set).
  The original is unchanged by the call; afterwards no sequence of slot assignments
  on the clone changes the value (so the \<^verbatim>\<open>usedRegs\<close>) of the original, nor the
  other way round.
\<close>

theorem clone_equal_and_independent:
  assumes "allocated st p" and "clone st p = (q, st')"
  shows
    "regs (Regs_at st' q) =
       (\<lambda>r. if r < REGISTER_REGS_MAX then regs (Regs_at st p) r else None) \<and>
     usedRegs (Regs_at st' q) = usedRegs (Regs_at st p) \<and>
     usedAddresses (Regs_at st' q) = usedAddresses (Regs_at st p) \<and>
     set (inputRegs (Regs_at st' q)) = set (inputRegs (Regs_at st p)) \<and>
     stack (Regs_at st' q) = stack (Regs_at st p) \<and>
     (dom (regs (Regs_at st p)) \<subseteq> {..<REGISTER_REGS_MAX} \<and> distinct (inputRegs (Regs_at st p))
        \<longrightarrow> Regs_at st' q = Regs_at st p) \<and>
     allocated st' q \<and>
     length (slot_arrays st) \<le> regs_at q \<and>
     length (number_arrays st) \<le> usedAddresses_at q \<and>
     length (register_sets st) \<le> inputRegs_at q \<and>
     length (number_arrays st) \<le> stack_at q \<and>
     Regs_at st' p = Regs_at st p \<and>
     (\<forall>ws. Regs_at (set_slots st' q ws) p = Regs_at st p \<and>
           usedRegs (Regs_at (set_slots st' q ws) p) = usedRegs (Regs_at st p)) \<and>
     (\<forall>ws. Regs_at (set_slots st' p ws) q = Regs_at st' q \<and>
           usedRegs (Regs_at (set_slots st' p ws) q) = usedRegs (Regs_at st' q))"
proof -
  have a: "regs_at p < length (slot_arrays st)" "usedAddresses_at p < length (number_arrays st)"
      "inputRegs_at p < length (register_sets st)" "stack_at p < length (number_arrays st)"
    using assms(1) by (simp_all add: allocated_def)
  have q: "q = \<lparr>regs_at = length (slot_arrays st), usedAddresses_at = length (number_arrays st),
       inputRegs_at = length (register_sets st), stack_at = length (number_arrays st) + 1\<rparr>"
    and st': "st' = \<lparr>slot_arrays = slot_arrays st @
         [\<lambda>i. if i < REGISTER_REGS_MAX then (slot_arrays st ! regs_at p) i else None],
       number_arrays = number_arrays st @
         [number_arrays st ! usedAddresses_at p, number_arrays st ! stack_at p],
       register_sets = register_sets st @
         [fold (\<lambda>reg acc. Set_add acc reg) (register_sets st ! inputRegs_at p) []]\<rparr>"
    using assms(2) clone_eq [OF assms(1)] by simp_all
  have slots: "regs (Regs_at st' q) =
       (\<lambda>r. if r < REGISTER_REGS_MAX then regs (Regs_at st p) r else None)"
    by (auto simp: Regs_at_def q st' fun_eq_iff)
  have used: "usedRegs (Regs_at st' q) = usedRegs (Regs_at st p)"
    unfolding usedRegs_def by (rule usedRegs_loop_cong) (simp add: slots)
  have addrs: "usedAddresses (Regs_at st' q) = usedAddresses (Regs_at st p)"
    by (simp add: Regs_at_def q st')
  have stk: "stack (Regs_at st' q) = stack (Regs_at st p)"
    by (simp add: Regs_at_def q st' nth_append)
  have inp: "inputRegs (Regs_at st' q) =
      fold (\<lambda>reg acc. Set_add acc reg) (inputRegs (Regs_at st p)) []"
    by (simp add: Regs_at_def q st')
  have inp_set: "set (inputRegs (Regs_at st' q)) = set (inputRegs (Regs_at st p))"
    by (simp add: inp set_fold_Set_add)
  have whole: "Regs_at st' q = Regs_at st p"
    if inv: "dom (regs (Regs_at st p)) \<subseteq> {..<REGISTER_REGS_MAX}"
      "distinct (inputRegs (Regs_at st p))"
  proof -
    have "regs (Regs_at st p) r = None" if "\<not> r < REGISTER_REGS_MAX" for r
      using inv(1) that by (auto simp: dom_def)
    then have "regs (Regs_at st' q) = regs (Regs_at st p)"
      by (auto simp: slots fun_eq_iff)
    moreover have "inputRegs (Regs_at st' q) = inputRegs (Regs_at st p)"
      using inv(2) by (simp add: inp fold_Set_add_distinct)
    ultimately show ?thesis
      using addrs stk by (simp add: Regs.equality)
  qed
  have alloc: "allocated st' q"
    by (simp add: allocated_def q st')
  have old: "Regs_at st' p = Regs_at st p"
    using a by (simp add: Regs_at_def st' nth_append)
  have neq: "regs_at p \<noteq> regs_at q"
    using a by (simp add: q)
  have ind1: "Regs_at (set_slots st' q ws) p = Regs_at st p" for ws
    using Regs_at_set_slots_other [OF neq] old by simp
  have ind2: "Regs_at (set_slots st' p ws) q = Regs_at st' q" for ws
    using Regs_at_set_slots_other [OF neq [symmetric]] by simp
  show ?thesis
    using slots used addrs inp_set stk whole alloc old ind1 ind2
    by (simp add: q)
qed

theorem clone_equal_and_independent_witness:
  "allocated sample_store sample_instance \<and>
   dom (regs (Regs_at sample_store sample_instance)) \<subseteq> {..<REGISTER_REGS_MAX} \<and>
   distinct (inputRegs (Regs_at sample_store sample_instance)) \<and>
   Regs_at (snd sample_clone) (fst sample_clone) = Regs_at sample_store sample_instance \<and>
   usedRegs (Regs_at sample_store sample_instance) = [REGISTER_B] \<and>
   usedRegs (Regs_at (snd sample_clone) (fst sample_clone)) = [REGISTER_B] \<and>
   usedRegs (Regs_at (set_slots (snd sample_clone) (fst sample_clone) [(REGISTER_C, Some (- 1))])
               sample_instance) = [REGISTER_B] \<and>
   usedRegs (Regs_at (set_slots (snd sample_clone) sample_instance [(REGISTER_C, Some (- 1))])
               (fst sample_clone)) = [REGISTER_B] \<and>
   usedRegs (Regs_at (set_slots (snd sample_clone) (fst sample_clone) [(REGISTER_C, Some (- 1))])
               (fst sample_clone)) = [REGISTER_B, REGISTER_C]"
proof -
  have h1: "allocated sample_store sample_instance"
    by (simp add: allocated_def sample_store_eq sample_instance_eq)
  have h2: "clone sample_store sample_instance = (fst sample_clone, snd sample_clone)"
    by (simp add: sample_clone_def)
  have h3: "dom (regs (Regs_at sample_store sample_instance)) \<subseteq> {..<REGISTER_REGS_MAX}"
    by (auto simp: Regs_at_def sample_store_eq sample_instance_eq Regs_init_loop_apply
        REGISTER_defs split: if_splits)
  have h4: "distinct (inputRegs (Regs_at sample_store sample_instance))"
    by (simp add: Regs_at_def sample_store_eq sample_instance_eq)
  have u: "usedRegs (Regs_at sample_store sample_instance) = [REGISTER_B]"
    by code_simp
  note c = clone_equal_and_independent [OF h1 h2]
  have eq: "Regs_at (snd sample_clone) (fst sample_clone) = Regs_at sample_store sample_instance"
    using c h3 h4 by blast
  have i1: "usedRegs (Regs_at (set_slots (snd sample_clone) (fst sample_clone)
                                 [(REGISTER_C, Some (- 1))]) sample_instance)
            = usedRegs (Regs_at sample_store sample_instance)"
    using c by blast
  have i2: "usedRegs (Regs_at (set_slots (snd sample_clone) sample_instance
                                 [(REGISTER_C, Some (- 1))]) (fst sample_clone))
            = usedRegs (Regs_at (snd sample_clone) (fst sample_clone))"
    using c by blast
  show ?thesis
    using h1 h3 h4 eq i1 i2 u sample_clone_mutated by simp
qed

section \<open>Properties of the memory\<close>

subsection \<open>Addresses on the ring\<close>

lemma wrap_eq_mod: "(a::int) AND (MAX_MEM_SIZE - 1) = a mod 65536"
proof -
  have "MAX_MEM_SIZE - 1 = (mask 16 :: int)"
    by (simp add: MAX_MEM_SIZE_def mask_eq_exp_minus_1)
  then have "a AND (MAX_MEM_SIZE - 1) = take_bit 16 a"
    by (simp add: take_bit_eq_mask)
  then show ?thesis by (simp add: take_bit_eq_mod)
qed

text \<open>
  C6: \<^verbatim>\<open>getWordValueAt(a)\<close> is \<^verbatim>\<open>getValueAt(a) + 256*getValueAt(a+1)\<close>, both bytes
  read at the address modulo 65536, an index inside the array; at \<open>a = 65535\<close> the
  high byte is the one at address 0.
\<close>

theorem getWordValueAt_little_endian:
  "getWordValueAt m a = getValueAt m a + 256 * getValueAt m (a + 1) \<and>
   getValueAt m a = uint (memory m ! nat (a mod 65536)) \<and>
   getValueAt m (a + 1) = uint (memory m ! nat ((a + 1) mod 65536)) \<and>
   nat (a mod 65536) < 65536 \<and> nat ((a + 1) mod 65536) < 65536 \<and>
   getWordValueAt m 65535 = uint (memory m ! 65535) + 256 * uint (memory m ! 0)"
  by (simp add: getWordValueAt_def getValueAt_def wrap_eq_mod nat_less_iff)

subsection \<open>The constructor, setMemory, the attribute loop\<close>

lemma Memory_init_loop_attr:
  "memoryAttr (Memory_init_loop i m) k =
     (if i \<le> k \<and> k < MAX_MEM_SIZE then Some MemAttribute_UNUSED else memoryAttr m k)"
proof (induction i m rule: Memory_init_loop.induct)
  case (1 i m)
  show ?case
  proof (cases "i < MAX_MEM_SIZE")
    case True
    define m' where "m' = m\<lparr>memory := (memory m)[nat i := 0],
                memoryAttr := (memoryAttr m)(i \<mapsto> MemAttribute_UNUSED)\<rparr>"
    have "Memory_init_loop i m = Memory_init_loop (i + 1) m'"
      using True by (subst Memory_init_loop.simps) (simp add: m'_def)
    moreover have "memoryAttr (Memory_init_loop (i + 1) m') k =
       (if i + 1 \<le> k \<and> k < MAX_MEM_SIZE then Some MemAttribute_UNUSED else memoryAttr m' k)"
      unfolding m'_def by (rule 1 [OF True])
    ultimately show ?thesis using True by (auto simp: m'_def)
  next
    case False
    then show ?thesis by (subst Memory_init_loop.simps) auto
  qed
qed

lemma replicate_update_same: "(replicate n x)[j := x] = replicate n x"
  by (cases "j < n") (auto simp: list_eq_iff_nth_eq nth_list_update)

lemma Memory_init_loop_memory:
  "memory m = replicate n 0 \<Longrightarrow> memory (Memory_init_loop i m) = replicate n 0"
proof (induction i m rule: Memory_init_loop.induct)
  case (1 i m)
  show ?case
  proof (cases "i < MAX_MEM_SIZE")
    case True
    define m' where "m' = m\<lparr>memory := (memory m)[nat i := 0],
                memoryAttr := (memoryAttr m)(i \<mapsto> MemAttribute_UNUSED)\<rparr>"
    have "memory m' = replicate n 0"
      by (simp add: m'_def 1(2) replicate_update_same)
    then have "memory (Memory_init_loop (i + 1) m') = replicate n 0"
      unfolding m'_def by (rule 1(1) [OF True])
    moreover have "Memory_init_loop i m = Memory_init_loop (i + 1) m'"
      using True by (subst Memory_init_loop.simps) (simp add: m'_def)
    ultimately show ?thesis by simp
  next
    case False
    then show ?thesis using 1(2) by (subst Memory_init_loop.simps) auto
  qed
qed

lemma memoryAttr_Memory_new:
  "memoryAttr Memory_new k = (if 0 \<le> k \<and> k < MAX_MEM_SIZE then Some MemAttribute_UNUSED else None)"
  by (simp add: Memory_new_def Memory_init_loop_attr)

lemma memory_Memory_new: "memory Memory_new = replicate 65536 0"
  by (simp add: Memory_new_def Memory_init_loop_memory MAX_MEM_SIZE_def)

lemma addAttributeAt_loop_apply:
  "addAttributeAt_loop i len address attr a k =
     (if address \<le> k \<and> k < address + (len - i)
      then Some ((case a k of None \<Rightarrow> 0 | Some v \<Rightarrow> v) OR attr) else a k)"
proof (induction i len address attr a rule: addAttributeAt_loop.induct)
  case (1 i len address attr a)
  show ?case
  proof (cases "i < len")
    case True
    have "addAttributeAt_loop i len address attr a k =
          addAttributeAt_loop (i + 1) len (address + 1) attr (or_assign a address attr) k"
      using True by (subst addAttributeAt_loop.simps) simp
    also have "\<dots> = (if address + 1 \<le> k \<and> k < address + 1 + (len - (i + 1))
      then Some ((case or_assign a address attr k of None \<Rightarrow> 0 | Some v \<Rightarrow> v) OR attr)
      else or_assign a address attr k)"
      by (rule 1 [OF True])
    also have "\<dots> = (if address \<le> k \<and> k < address + (len - i)
      then Some ((case a k of None \<Rightarrow> 0 | Some v \<Rightarrow> v) OR attr) else a k)"
      using True by (auto simp: or_assign_def)
    finally show ?thesis .
  next
    case False
    then show ?thesis by (subst addAttributeAt_loop.simps) auto
  qed
qed

lemma getAttributeAt_addAttributeAt:
  "getAttributeAt (addAttributeAt m address len attr) k =
     (if address \<le> k \<and> k < address + len
      then Some ((case getAttributeAt m k of None \<Rightarrow> 0 | Some v \<Rightarrow> v) OR attr)
      else getAttributeAt m k)"
  by (simp add: getAttributeAt_def addAttributeAt_def addAttributeAt_loop_apply)

lemma memory_sample_memory:
  "memory sample_memory =
     (replicate 65536 0)
       [4096 := 0x18, 4097 := 0xFE, 32768 := 0x3E, 32769 := 0x80, 32770 := 0x3E, 32771 := 0x7F,
        32772 := 0x3E, 32773 := 0x00, 32774 := 0xD3, 32775 := 0x80, 32776 := 0xED]"
  by (simp add: sample_memory_def setMemory_def setMemory_loop.simps memory_Memory_new
      wrap_eq_mod Let_def)

lemma getValueAt_sample_memory:
  "getValueAt sample_memory 0x1000 = 0x18" "getValueAt sample_memory 0x1001 = 0xFE"
  "getValueAt sample_memory 0x8000 = 0x3E" "getValueAt sample_memory 0x8001 = 0x80"
  "getValueAt sample_memory 0x8002 = 0x3E" "getValueAt sample_memory 0x8003 = 0x7F"
  "getValueAt sample_memory 0x8004 = 0x3E" "getValueAt sample_memory 0x8005 = 0x00"
  "getValueAt sample_memory 0x8006 = 0xD3" "getValueAt sample_memory 0x8007 = 0x80"
  "getValueAt sample_memory 0x8008 = 0xED"
  by (simp_all add: getValueAt_def wrap_eq_mod memory_sample_memory)

text \<open>
  C2: \<^verbatim>\<open>addAttributeAt\<close> and \<^verbatim>\<open>getAttributeAt\<close> index \<^verbatim>\<open>memoryAttr\<close> with the
  address as it is, without the mask that \<^verbatim>\<open>setMemory\<close> and \<^verbatim>\<open>getValueAt\<close> apply.
  Tagging two addresses from 65535 on a new memory writes the entries 65535 and 65536;
  the attribute at address 0 stays \<^verbatim>\<open>UNUSED\<close>. Reading at 65536 gives the entry
  65536 (\<^verbatim>\<open>undefined\<close> on a new memory), not the attribute of address 0.
\<close>

theorem addAttributeAt_past_end:
  "getAttributeAt (addAttributeAt Memory_new 65535 2 MemAttribute_CODE) 65535
     = Some MemAttribute_CODE \<and>
   getAttributeAt (addAttributeAt Memory_new 65535 2 MemAttribute_CODE) 65536
     = Some MemAttribute_CODE \<and>
   getAttributeAt (addAttributeAt Memory_new 65535 2 MemAttribute_CODE) ((65535 + 1) mod 65536)
     = Some MemAttribute_UNUSED \<and>
   getAttributeAt Memory_new 65536 = None \<and>
   getAttributeAt Memory_new (65536 mod 65536) = Some MemAttribute_UNUSED"
  by (simp add: getAttributeAt_addAttributeAt)
     (simp add: getAttributeAt_def memoryAttr_Memory_new MAX_MEM_SIZE_def
        MemAttribute_CODE_def MemAttribute_UNUSED_def)

subsection \<open>getOpcodeAt\<close>

lemma getOpcodeAt_val:
  "uint (memory m ! nat (address AND (MAX_MEM_SIZE - 1))) = getValueAt m address"
  by (simp add: getValueAt_def)

text \<open>
  C4: for an opcode of kind \<^verbatim>\<open>CODE_RELATIVE_LBL\<close> or \<^verbatim>\<open>CODE_RELATIVE_LOOP\<close> at
  address \<open>a\<close>, \<^verbatim>\<open>getOpcodeAt\<close> returns the descriptor with value \<open>a + 2 + d\<close>,
  where \<open>d\<close> is the following byte \<open>b\<close> read as signed: \<open>b - 256\<close> if \<open>b \<ge> 128\<close>,
  else \<open>b\<close>.
\<close>

theorem getOpcodeAt_relative:
  assumes "valueType (fromValue (getValueAt m a)) = CODE_RELATIVE_LBL \<or>
           valueType (fromValue (getValueAt m a)) = CODE_RELATIVE_LOOP"
  shows "getOpcodeAt fromValue m a =
           Inr ((fromValue (getValueAt m a))
                  \<lparr>value := a + 2 + (if getValueAt m (a + 1) \<ge> 128
                                     then getValueAt m (a + 1) - 256
                                     else getValueAt m (a + 1))\<rparr>)"
  using assms
  by (auto simp: getOpcodeAt_def Let_def getOpcodeAt_val byte_value_def)

theorem getOpcodeAt_relative_witness:
  "(valueType (sample_fromValue (getValueAt sample_memory 0x1000)) = CODE_RELATIVE_LBL \<or>
    valueType (sample_fromValue (getValueAt sample_memory 0x1000)) = CODE_RELATIVE_LOOP) \<and>
   getValueAt sample_memory 0x1001 = 0xFE \<and>
   getOpcodeAt sample_fromValue sample_memory 0x1000 =
     Inr \<lparr>valueType = CODE_RELATIVE_LBL, value = 0x1000\<rparr>"
proof -
  have h: "valueType (sample_fromValue (getValueAt sample_memory 0x1000)) = CODE_RELATIVE_LBL \<or>
           valueType (sample_fromValue (getValueAt sample_memory 0x1000)) = CODE_RELATIVE_LOOP"
    by (simp add: getValueAt_sample_memory sample_fromValue_def)
  show ?thesis
    using h getOpcodeAt_relative [of sample_fromValue sample_memory "0x1000", OF h]
    by (simp add: getValueAt_sample_memory sample_fromValue_def)
qed

text \<open>
  C5: for an opcode of kind \<^verbatim>\<open>NUMBER_BYTE\<close> the value is the following byte \<open>b\<close>
  read as signed (\<open>b - 256\<close> if \<open>b \<ge> 128\<close>, else \<open>b\<close>); for one of kind
  \<^verbatim>\<open>PORT_LBL\<close> the value is \<open>b\<close> itself, unsigned.
\<close>

theorem getOpcodeAt_byte:
  "(valueType (fromValue (getValueAt m a)) = NUMBER_BYTE \<longrightarrow>
      getOpcodeAt fromValue m a =
        Inr ((fromValue (getValueAt m a))
               \<lparr>value := (if getValueAt m (a + 1) \<ge> 128 then getValueAt m (a + 1) - 256
                          else getValueAt m (a + 1))\<rparr>)) \<and>
   (valueType (fromValue (getValueAt m a)) = PORT_LBL \<longrightarrow>
      getOpcodeAt fromValue m a =
        Inr ((fromValue (getValueAt m a))\<lparr>value := getValueAt m (a + 1)\<rparr>))"
  by (auto simp: getOpcodeAt_def Let_def getOpcodeAt_val byte_value_def)

theorem getOpcodeAt_byte_witness:
  "valueType (sample_fromValue (getValueAt sample_memory 0x8000)) = NUMBER_BYTE \<and>
   getValueAt sample_memory 0x8001 = 0x80 \<and>
   getOpcodeAt sample_fromValue sample_memory 0x8000 = Inr \<lparr>valueType = NUMBER_BYTE, value = - 128\<rparr> \<and>
   getValueAt sample_memory 0x8003 = 0x7F \<and>
   getOpcodeAt sample_fromValue sample_memory 0x8002 = Inr \<lparr>valueType = NUMBER_BYTE, value = 127\<rparr> \<and>
   getValueAt sample_memory 0x8005 = 0x00 \<and>
   getOpcodeAt sample_fromValue sample_memory 0x8004 = Inr \<lparr>valueType = NUMBER_BYTE, value = 0\<rparr> \<and>
   valueType (sample_fromValue (getValueAt sample_memory 0x8006)) = PORT_LBL \<and>
   getValueAt sample_memory 0x8007 = 0x80 \<and>
   getOpcodeAt sample_fromValue sample_memory 0x8006 = Inr \<lparr>valueType = PORT_LBL, value = 128\<rparr>"
  using getOpcodeAt_byte [of sample_fromValue sample_memory "0x8000"]
        getOpcodeAt_byte [of sample_fromValue sample_memory "0x8002"]
        getOpcodeAt_byte [of sample_fromValue sample_memory "0x8004"]
        getOpcodeAt_byte [of sample_fromValue sample_memory "0x8006"]
  by (simp add: getValueAt_sample_memory sample_fromValue_def)

text \<open>
  C7: when the opcode's kind is none of those the \<^verbatim>\<open>switch\<close> names,
  \<^verbatim>\<open>getOpcodeAt\<close> ends in the failed assertion and returns no descriptor.
\<close>

theorem getOpcodeAt_unrecognised:
  "valueType (fromValue (getValueAt m a)) = OTHER k \<Longrightarrow>
     getOpcodeAt fromValue m a = Inl AssertionError"
  by (simp add: getOpcodeAt_def Let_def getOpcodeAt_val)

theorem getOpcodeAt_unrecognised_witness:
  "valueType (sample_fromValue (getValueAt sample_memory 0x8008)) = OTHER 0 \<and>
   getOpcodeAt sample_fromValue sample_memory 0x8008 = Inl AssertionError"
proof -
  have h: "valueType (sample_fromValue (getValueAt sample_memory 0x8008)) = OTHER 0"
    by (simp add: getValueAt_sample_memory sample_fromValue_def)
  show ?thesis
    using h getOpcodeAt_unrecognised [of sample_fromValue sample_memory "0x8008" 0, OF h]
    by simp
qed

end
